theory Spec2Isabelle
  imports
    Complex_Main
    "HOL-Library.Multiset"
    "HOL-Library.AList"
    "HOL-Library.Char_ord"
    "HOL-Library.List_Lexorder"
begin

section \<open>Python values used by both modules\<close>

text \<open>
  The exceptions the modelled code can raise. A function that can raise returns
  \<open>error + 'a\<close>, with \<open>Inl\<close> for the exception.
\<close>

datatype error = KeyError | AttributeError | IndexError | ValueError | OverflowError

text \<open>
  Python slices \<open>xs[:k]\<close> and \<open>xs[k:]\<close> for an integer \<open>k\<close>: a negative \<open>k\<close>
  counts from the end, and both ends are clamped to the list.
\<close>

definition py_take :: "int \<Rightarrow> 'a list \<Rightarrow> 'a list" where
  "py_take k xs =
     (if 0 \<le> k then take (nat k) xs else take (length xs - nat (- k)) xs)"

definition py_drop :: "int \<Rightarrow> 'a list \<Rightarrow> 'a list" where
  "py_drop k xs =
     (if 0 \<le> k then drop (nat k) xs else drop (length xs - nat (- k)) xs)"

text \<open>
  A Python float is a finite double, an infinity or a NaN. A finite double is read
  as the real number it denotes; the sign of an infinity plays no part below.
  \<open>int(x)\<close> truncates a finite float toward zero and raises OverflowError on an
  infinity and ValueError on a NaN.
\<close>

datatype py_float = Finite real | Infinite | NaN

definition py_int :: "py_float \<Rightarrow> error + int" where
  "py_int x =
     (case x of
        Finite r \<Rightarrow> Inr (if 0 \<le> r then \<lfloor>r\<rfloor> else \<lceil>r\<rceil>)
      | Infinite \<Rightarrow> Inl OverflowError
      | NaN \<Rightarrow> Inl ValueError)"

text \<open>
  Double arithmetic rounds. \<open>round_double x\<close> is the double nearest to the real
  \<open>x\<close>, ties to the even significand: 53 significant bits, the unit in the last
  place never below \<open>2^-1074\<close>, and an infinity when the rounded value reaches
  \<open>2^1024\<close>. \<open>double_product n f\<close> is Python's \<open>n * f\<close> for an integer \<open>n\<close> and a
  float \<open>f\<close>: the integer is converted to a double, then the two doubles are
  multiplied.
\<close>

definition pow2 :: "int \<Rightarrow> real" where
  "pow2 e = (if 0 \<le> e then 2 ^ nat e else 1 / 2 ^ nat (- e))"

definition exponent :: "real \<Rightarrow> int" where
  "exponent x = \<lfloor>log 2 \<bar>x\<bar>\<rfloor>"

definition round_half_even :: "real \<Rightarrow> int" where
  "round_half_even y =
     (let f = \<lfloor>y\<rfloor>; d = y - real_of_int f
      in if d < 1 / 2 then f else if 1 / 2 < d then f + 1 else if even f then f else f + 1)"

definition round_double :: "real \<Rightarrow> py_float" where
  "round_double x =
     (if x = 0 then Finite 0
      else (let e = max (exponent x) (- 1022);
                ulp = pow2 (e - 52);
                r = real_of_int (round_half_even (x / ulp)) * ulp
            in if pow2 1024 \<le> \<bar>r\<bar> then Infinite else Finite r))"

definition double_product :: "nat \<Rightarrow> py_float \<Rightarrow> py_float" where
  "double_product n f =
     (case round_double (real n) of
        Finite m \<Rightarrow>
          (case f of
             Finite v \<Rightarrow> round_double (m * v)
           | Infinite \<Rightarrow> if m = 0 then NaN else Infinite
           | NaN \<Rightarrow> NaN)
      | Infinite \<Rightarrow> Infinite
      | NaN \<Rightarrow> NaN)"

section \<open>The annotated matrix\<close>

text \<open>
  An annotated matrix (AnnData) holds the cells-by-genes matrix \<open>X\<close>, the row and
  column names, the per-cell table \<open>obs\<close> and the per-gene table \<open>var\<close>. A column of
  \<open>obs\<close> is categorical (with its list of categories) or plain; a column of \<open>var\<close>
  holds booleans, integers or floats.
\<close>

datatype obs_column =
    Categorical (categories: "string list") (col_values: "string list")
  | Plain (col_values: "string list")

datatype var_column =
    BoolCol "bool list"
  | IntCol "int list"
  | FloatCol "real list"

record adata =
  X :: "real list list"
  obs_names :: "string list"
  var_names :: "string list"
  obs :: "string \<rightharpoonup> obs_column"
  var :: "string \<rightharpoonup> var_column"

text \<open>
  Annotated matrices are mutable objects that the code copies and updates in place.
  The store holds them; a reference is an index into the store, and \<open>copy\<close>
  allocates a fresh object with the same contents (\<open>adata.copy()\<close> is a deep copy).
\<close>

type_synonym ref = nat
type_synonym store = "adata list"

definition copy :: "store \<Rightarrow> ref \<Rightarrow> ref \<times> store" where
  "copy s r = (length s, s @ [s ! r])"

section \<open>surgeon/utils.py\<close>

subsection \<open>label_encoder\<close>






fun index_of :: "'a list \<Rightarrow> 'a \<Rightarrow> nat option" where
  "index_of [] v = None"
| "index_of (c # cs) v = (if c = v then Some 0 else map_option Suc (index_of cs v))"




subsection \<open>train_test_split\<close>

text \<open>
  \<open>adata[idx, :]\<close>: the rows with the given positions, in the given order. The
  positions come from \<open>np.arange(n)\<close> and are always in range.
\<close>

definition obs_column_rows :: "nat list \<Rightarrow> obs_column \<Rightarrow> obs_column" where
  "obs_column_rows idx c =
     (case c of
        Categorical cats vs \<Rightarrow> Categorical cats (map (\<lambda>i. vs ! i) idx)
      | Plain vs \<Rightarrow> Plain (map (\<lambda>i. vs ! i) idx))"

definition select_rows :: "adata \<Rightarrow> nat list \<Rightarrow> adata" where
  "select_rows a idx =
     a\<lparr>X := map (\<lambda>i. X a ! i) idx,
       obs_names := map (\<lambda>i. obs_names a ! i) idx,
       obs := (\<lambda>k. map_option (obs_column_rows idx) (obs a k))\<rparr>"

text \<open>
  Lines 45 to 49: the split point, the shuffled positions and their two slices.
  The product \<open>adata.shape[0] * train_frac\<close> is computed by the float runtime,
  which is the parameter \<open>product\<close> (\<open>double_product\<close> for a float \<open>train_frac\<close>);
  \<open>int\<close> of it can raise, before anything is shuffled. \<open>np.random.shuffle\<close>
  permutes in place and advances the global random generator; the generator's state
  \<open>g\<close> is passed explicitly and \<open>shuffle\<close> is the generator's shuffling routine.
\<close>

definition split_indices ::
  "(nat \<Rightarrow> 'f \<Rightarrow> py_float) \<Rightarrow> ('g \<Rightarrow> nat list \<Rightarrow> nat list \<times> 'g) \<Rightarrow> 'g \<Rightarrow> nat \<Rightarrow> 'f
     \<Rightarrow> error + (nat list \<times> nat list) \<times> 'g" where
  "split_indices product shuffle g n train_frac =
     (case py_int (product n train_frac) of
        Inl e \<Rightarrow> Inl e
      | Inr train_size \<Rightarrow>
          (let (indices, g') = shuffle g [0..<n];
               train_idx = py_take train_size indices;
               test_idx = py_drop train_size indices
           in Inr ((train_idx, test_idx), g')))"

definition train_test_split ::
  "(nat \<Rightarrow> 'f \<Rightarrow> py_float) \<Rightarrow> ('g \<Rightarrow> nat list \<Rightarrow> nat list \<times> 'g) \<Rightarrow> 'g \<Rightarrow> adata \<Rightarrow> 'f
     \<Rightarrow> error + (adata \<times> adata) \<times> 'g" where
  "train_test_split product shuffle g a train_frac =
     (case split_indices product shuffle g (length (obs_names a)) train_frac of
        Inl e \<Rightarrow> Inl e
      | Inr ((train_idx, test_idx), g') \<Rightarrow>
          (let train_data = select_rows a train_idx;
               valid_data = select_rows a test_idx
           in Inr ((train_data, valid_data), g')))"

subsection \<open>create_dictionary\<close>

text \<open>
  \<open>target_conditions\<close> is a list or a single value, which the code wraps in a list.
  The dict is an association list in insertion order; \<open>dictionary[condition] = idx\<close>
  overwrites the value of a key that is present and appends a new key otherwise.
\<close>

datatype 'a target_conditions = Single 'a | Listed "'a list"

definition create_dictionary :: "'a list \<Rightarrow> 'a target_conditions \<Rightarrow> ('a \<times> nat) list" where
  "create_dictionary conditions target_conditions =
     (let target_conditions' = (case target_conditions of Listed l \<Rightarrow> l | Single v \<Rightarrow> [v]);
          conditions' = filter (\<lambda>e. e \<notin> set target_conditions') conditions
      in fold (\<lambda>(idx, condition) dictionary. AList.update condition idx dictionary)
           (enumerate 0 conditions') [])"

subsection \<open>hvg_batch\<close>

text \<open>
  \<open>sc.pp.highly_variable_genes\<close> is the external statistics routine. It is a
  parameter: given the matrix, the flavor, \<open>n_top_genes\<close>, \<open>n_bins\<close> and the batch
  key it yields, for each gene in the order of \<open>var_names\<close>, the highly-variable flag,
  the number of batches in which the gene is flagged and the normalized dispersion.
  Its effect on the object it is given is to write these as columns of \<open>var\<close>.
\<close>

type_synonym hvg_routine =
  "adata \<Rightarrow> string \<Rightarrow> int \<Rightarrow> int \<Rightarrow> string option \<Rightarrow> (bool \<times> int \<times> real) list"

definition highly_variable_genes ::
  "hvg_routine \<Rightarrow> store \<Rightarrow> ref \<Rightarrow> string \<Rightarrow> int \<Rightarrow> int \<Rightarrow> string option \<Rightarrow> store" where
  "highly_variable_genes hv s r flavor n_top_genes n_bins batch_key =
     (let a = s ! r; stats = hv a flavor n_top_genes n_bins batch_key
      in s[r := a\<lparr>var := (var a)
           (''highly_variable'' \<mapsto> BoolCol (map fst stats),
            ''highly_variable_nbatches'' \<mapsto> IntCol (map (\<lambda>t. fst (snd t)) stats),
            ''dispersions_norm'' \<mapsto> FloatCol (map (\<lambda>t. snd (snd t)) stats))\<rparr>])"

text \<open>\<open>len(adata.obs[batch_key].cat.categories)\<close>.\<close>

definition n_categories :: "adata \<Rightarrow> string option \<Rightarrow> error + nat" where
  "n_categories a batch_key =
     (case batch_key of
        None \<Rightarrow> Inl KeyError
      | Some k \<Rightarrow>
          (case obs a k of
             None \<Rightarrow> Inl KeyError
           | Some (Plain vs) \<Rightarrow> Inl AttributeError
           | Some (Categorical cats vs) \<Rightarrow> Inr (length cats)))"

text \<open>
  \<open>var['dispersions_norm']\<close> (KeyError when absent) and
  \<open>var.highly_variable_nbatches\<close> (AttributeError when absent). \<open>hvg_batch\<close>
  reads both right after the statistics routine has written them, as a float and an
  integer column, so there the reads succeed and the other branches are not taken.
\<close>

definition var_floats :: "adata \<Rightarrow> string \<Rightarrow> error + real list" where
  "var_floats a key =
     (case var a key of
        None \<Rightarrow> Inl KeyError
      | Some (FloatCol ds) \<Rightarrow> Inr ds
      | Some (IntCol ns) \<Rightarrow> Inr (map real_of_int ns)
      | Some (BoolCol bs) \<Rightarrow> Inr (map (\<lambda>b. if b then 1 else 0) bs))"

definition var_ints :: "adata \<Rightarrow> string \<Rightarrow> error + int list" where
  "var_ints a key =
     (case var a key of
        None \<Rightarrow> Inl AttributeError
      | Some (IntCol ns) \<Rightarrow> Inr ns
      | Some (BoolCol bs) \<Rightarrow> Inr (map (\<lambda>b. if b then 1 else 0) bs)
      | Some (FloatCol ds) \<Rightarrow> Inl ValueError)"

text \<open>
  A pandas Series of dispersions indexed by gene name is a list of pairs.
  \<open>series_where p names ns ds\<close> is \<open>var['dispersions_norm'][mask]\<close> for the mask
  that \<open>p\<close> computes from \<open>highly_variable_nbatches\<close>; \<open>sort_values_desc\<close> is
  \<open>sort_values(ascending=False)\<close>. The order pandas gives to equal dispersions is not
  specified; the model keeps them in table order.
\<close>

definition series_where ::
  "(int \<Rightarrow> bool) \<Rightarrow> string list \<Rightarrow> int list \<Rightarrow> real list \<Rightarrow> (string \<times> real) list" where
  "series_where p names ns ds = map (\<lambda>(g, n, d). (g, d)) (filter (\<lambda>(g, n, d). p n) (zip names (zip ns ds)))"

definition sort_values_desc :: "(string \<times> real) list \<Rightarrow> (string \<times> real) list" where
  "sort_values_desc series = sort_key (\<lambda>(g, d). - d) series"

text \<open>
  Lines 141 to 156, the loop \<open>while not enough\<close>. Its state is \<open>hvg\<close> and
  \<open>not_n_batches\<close>. The loop need not terminate, so the result is an option and
  \<open>None\<close> stands for a loop that runs forever.
\<close>

partial_function (option) hvg_fill_loop ::
  "string list \<Rightarrow> int list \<Rightarrow> real list \<Rightarrow> int \<Rightarrow> int \<Rightarrow> string list \<Rightarrow> int \<Rightarrow> string list option" where
  "hvg_fill_loop names ns ds n_batches target_genes hvg not_n_batches =
     (let target_genes_diff = target_genes - int (length hvg);
          tmp_dispersions = series_where (\<lambda>n. n = n_batches - not_n_batches) names ns ds
      in if int (length tmp_dispersions) < target_genes_diff
         then hvg_fill_loop names ns ds n_batches target_genes
                (hvg @ map fst tmp_dispersions) (not_n_batches + 1)
         else Some (hvg @ py_take target_genes_diff (map fst (sort_values_desc tmp_dispersions))))"

text \<open>
  \<open>adata[:, hvg]\<close>: the columns with the given gene names, in the given order
  (gene names are unique in an annotated matrix; a name that is absent is a KeyError).
\<close>

definition var_column_cols :: "nat list \<Rightarrow> var_column \<Rightarrow> var_column" where
  "var_column_cols idx c =
     (case c of
        BoolCol bs \<Rightarrow> BoolCol (map (\<lambda>i. bs ! i) idx)
      | IntCol ns \<Rightarrow> IntCol (map (\<lambda>i. ns ! i) idx)
      | FloatCol ds \<Rightarrow> FloatCol (map (\<lambda>i. ds ! i) idx))"

definition select_vars :: "adata \<Rightarrow> string list \<Rightarrow> error + adata" where
  "select_vars a names =
     (case those (map (index_of (var_names a)) names) of
        None \<Rightarrow> Inl KeyError
      | Some idx \<Rightarrow>
          Inr (a\<lparr>X := map (\<lambda>row. map (\<lambda>i. row ! i) idx) (X a),
                 var_names := map (\<lambda>i. var_names a ! i) idx,
                 var := (\<lambda>k. map_option (var_column_cols idx) (var a k))\<rparr>))"

text \<open>
  Lines 127 to 156, on the table that the statistics routine has filled: the genes
  flagged in more than \<open>n_cats - 1\<close> batches, sorted by dispersion, are cut to
  \<open>target_genes\<close> when they are more than that, and are the loop's first \<open>hvg\<close>
  otherwise. \<open>n_cats\<close> is the number of categories read at line 128 and \<open>n_batches\<close>
  the number read at line 117.
\<close>

definition hvg_from_table ::
  "string list \<Rightarrow> int list \<Rightarrow> real list \<Rightarrow> nat \<Rightarrow> nat \<Rightarrow> int \<Rightarrow> string list option" where
  "hvg_from_table names ns ds n_cats n_batches target_genes =
     (let nbatch1_dispersions =
            sort_values_desc (series_where (\<lambda>n. n > int n_cats - 1) names ns ds)
      in if int (length nbatch1_dispersions) > target_genes
         then Some (py_take target_genes (map fst nbatch1_dispersions))
         else hvg_fill_loop names ns ds (int n_batches) target_genes
                (map fst nbatch1_dispersions) 1)"

text \<open>
  \<open>hvg_batch\<close> returns the list of gene names, or a new annotated matrix restricted
  to them. The result is \<open>None\<close> when the loop does not terminate, \<open>Some (Inl e)\<close>
  when an exception is raised, and otherwise the returned value with the store as
  the call leaves it. The \<open>print\<close> calls are left out.
\<close>

datatype hvg_result = GeneList "string list" | Matrix ref

definition hvg_batch ::
  "hvg_routine \<Rightarrow> store \<Rightarrow> ref \<Rightarrow> string option \<Rightarrow> int \<Rightarrow> string \<Rightarrow> int \<Rightarrow> bool
     \<Rightarrow> (error + hvg_result \<times> store) option" where
  "hvg_batch hv s adata batch_key target_genes flavor n_bins adataOut =
     (let (adata_hvg, s1) = (if adataOut then (adata, s) else copy s adata) in
      case n_categories (s1 ! adata_hvg) batch_key of
        Inl e \<Rightarrow> Some (Inl e)
      | Inr n_batches \<Rightarrow>
     (let s2 = highly_variable_genes hv s1 adata_hvg flavor target_genes n_bins batch_key;
          a2 = s2 ! adata_hvg in
      case var_floats a2 ''dispersions_norm'' of
        Inl e \<Rightarrow> Some (Inl e)
      | Inr ds \<Rightarrow>
     (case var_ints a2 ''highly_variable_nbatches'' of
        Inl e \<Rightarrow> Some (Inl e)
      | Inr ns \<Rightarrow>
     (case n_categories a2 batch_key of
        Inl e \<Rightarrow> Some (Inl e)
      | Inr n_cats \<Rightarrow>
     (case hvg_from_table (var_names a2) ns ds n_cats n_batches target_genes of
        None \<Rightarrow> None
      | Some hvg \<Rightarrow>
          (if \<not> adataOut then Some (Inr (GeneList hvg, s2))
           else (case select_vars a2 hvg of
                   Inl e \<Rightarrow> Some (Inl e)
                 | Inr v \<Rightarrow> Some (Inr (Matrix (length s2), s2 @ [v])))))))))"

section \<open>surgeon/models/_utils.py\<close>

text \<open>
  A tensor of shape \<open>[n, d]\<close> is a list of \<open>n\<close> rows of \<open>d\<close> reals. The functions
  below are documented for two tensors of shape \<open>[batch_size, z_dim]\<close>; the model
  is in exact real arithmetic, and a quotient by a zero count has its HOL value.
\<close>

type_synonym tensor = "real list list"

definition n_cols :: "tensor \<Rightarrow> nat" where
  "n_cols x = (case x of [] \<Rightarrow> 0 | row # rows \<Rightarrow> length row)"

text \<open>\<open>K.mean\<close> over all entries of a tensor, and over a vector.\<close>

definition mean_list :: "real list \<Rightarrow> real" where
  "mean_list v = sum_list v / real (length v)"

definition K_mean :: "tensor \<Rightarrow> real" where
  "K_mean t = mean_list (concat t)"

definition squared_distance :: "tensor \<Rightarrow> tensor \<Rightarrow> tensor" where
  "squared_distance x y =
     map (\<lambda>r. map (\<lambda>yj. sum_list (map2 (\<lambda>a b. (a - b)\<^sup>2) r yj)) y) x"

text \<open>The keyword arguments: only \<open>scales\<close> is read, with default \<open>[]\<close>.\<close>

type_synonym kwargs = "string \<rightharpoonup> real list"

definition sigmas :: "real list" where
  "sigmas = [1 / 10 ^ 6, 1 / 10 ^ 5, 1 / 10 ^ 4, 1 / 10 ^ 3, 1 / 10 ^ 2, 1 / 10, 1, 5, 10, 15, 20,
             25, 30, 35, 100, 10 ^ 3, 10 ^ 4, 10 ^ 5, 10 ^ 6]"

text \<open>
  \<open>compute_kernel\<close> returns a tensor, or Python's \<open>None\<close> when no branch returns.
\<close>

definition compute_kernel :: "tensor \<Rightarrow> tensor \<Rightarrow> string \<Rightarrow> kwargs \<Rightarrow> tensor option" where
  "compute_kernel x y kernel' kw =
     (let scales = (case kw ''scales'' of None \<Rightarrow> [] | Some v \<Rightarrow> v) in
      if kernel' = ''rbf'' then
        (let dim = n_cols x in
         Some (map (\<lambda>xi. map (\<lambda>yj.
                 exp (- mean_list (map2 (\<lambda>a b. (a - b)\<^sup>2) xi yj) / real dim)) y) x))
      else if kernel' = ''raphy'' then
        (let squared_dist = squared_distance x y;
             weights = real (length scales) in
         Some (map (map (\<lambda>d. \<Sum>s\<leftarrow>scales. weights * exp (- d / s\<^sup>2))) squared_dist))
      else if kernel' = ''multi-scale-rbf'' then
        (let beta = map (\<lambda>sigma. 1 / (2 * sigma)) sigmas;
             distances = squared_distance x y in
         Some (map (map (\<lambda>d. (\<Sum>b\<leftarrow>beta. exp (- (b * d))) / real (length sigmas))) distances))
      else None)"

text \<open>
  \<open>compute_mmd\<close>: \<open>K.mean\<close> of Python's \<open>None\<close> raises (ValueError in the tensor
  runtime), after the three kernels have been computed.
\<close>

definition compute_mmd :: "tensor \<Rightarrow> tensor \<Rightarrow> string \<Rightarrow> kwargs \<Rightarrow> error + real" where
  "compute_mmd x y kernel' kw =
     (let x_kernel = compute_kernel x x kernel' kw;
          y_kernel = compute_kernel y y kernel' kw;
          xy_kernel = compute_kernel x y kernel' kw
      in case x_kernel of
           None \<Rightarrow> Inl ValueError
         | Some kx \<Rightarrow>
             (case y_kernel of
                None \<Rightarrow> Inl ValueError
              | Some ky \<Rightarrow>
                  (case xy_kernel of
                     None \<Rightarrow> Inl ValueError
                   | Some kxy \<Rightarrow> Inr (K_mean kx + K_mean ky - 2 * K_mean kxy))))"

text \<open>
  \<open>sample_z\<close>: \<open>K.random_normal\<close> draws from the global random generator, whose state
  \<open>g\<close> is passed explicitly; \<open>random_normal g [b, z]\<close> is the drawn tensor of that
  shape and the generator's next state. The sum and the product are elementwise.
\<close>

definition tensor_map2 :: "(real \<Rightarrow> real \<Rightarrow> real) \<Rightarrow> tensor \<Rightarrow> tensor \<Rightarrow> tensor" where
  "tensor_map2 f s t = map2 (map2 f) s t"

definition sample_z ::
  "('g \<Rightarrow> nat \<times> nat \<Rightarrow> tensor \<times> 'g) \<Rightarrow> 'g \<Rightarrow> tensor \<times> tensor \<Rightarrow> tensor \<times> 'g" where
  "sample_z random_normal g args =
     (let (mu, log_var) = args;
          batch_size = length mu;
          z_dim = n_cols mu;
          (eps, g') = random_normal g (batch_size, z_dim)
      in (tensor_map2 (+) mu (tensor_map2 (*) (map (map (\<lambda>v. exp (v / 2))) log_var) eps), g'))"

text \<open>
  \<open>has_shape t (n, d)\<close>: the tensor \<open>t\<close> has \<open>n\<close> rows of \<open>d\<close> entries each.
\<close>

definition has_shape :: "tensor \<Rightarrow> nat \<times> nat \<Rightarrow> bool" where
  "has_shape t sh = (length t = fst sh \<and> list_all (\<lambda>row. length row = snd sh) t)"


section \<open>An example table\<close>

text \<open>
  Seventeen genes over three batches: five flagged in all three batches, ten in
  exactly two, one in one batch and one in none. The statistics routine of the
  example returns this table whatever it is given.
\<close>

definition example_stats :: "(bool \<times> int \<times> real) list" where
  "example_stats =
     [(True, 3, 12), (True, 3, 50), (True, 3, 31), (True, 3, 8), (True, 3, 27),
      (True, 2, 5), (True, 2, 25), (False, 2, 15), (True, 2, 35), (False, 2, 2),
      (True, 2, 40), (False, 2, 10), (True, 2, 30), (True, 2, 20), (False, 2, 7),
      (False, 1, 60), (False, 0, 1)]"

definition example_adata :: adata where
  "example_adata =
     \<lparr>X = replicate 3 (replicate 17 1),
      obs_names = [''cell1'', ''cell2'', ''cell3''],
      var_names = [''a1'', ''a2'', ''a3'', ''a4'', ''a5'',
                   ''b01'', ''b02'', ''b03'', ''b04'', ''b05'',
                   ''b06'', ''b07'', ''b08'', ''b09'', ''b10'', ''c1'', ''d1''],
      obs = [''batch'' \<mapsto> Categorical [''x'', ''y'', ''z''] [''x'', ''y'', ''z'']],
      var = Map.empty\<rparr>"

definition example_hv :: hvg_routine where
  "example_hv a flavor n_top_genes n_bins batch_key = example_stats"

section \<open>Properties of surgeon/models/_utils.py\<close>

subsection \<open>compute_kernel and compute_mmd\<close>

text \<open>
  C4: for every kernel argument other than "rbf", "raphy" and "multi-scale-rbf",
  and for all tensors \<open>x\<close> and \<open>y\<close> and all keyword arguments, \<open>compute_kernel\<close>
  falls through its branches: it returns Python's \<open>None\<close> and raises nothing.
\<close>

theorem compute_kernel_unrecognized:
  "kernel' \<noteq> ''rbf'' \<Longrightarrow> kernel' \<noteq> ''raphy'' \<Longrightarrow> kernel' \<noteq> ''multi-scale-rbf''
     \<Longrightarrow> compute_kernel x y kernel' kw = None"
  by (simp add: compute_kernel_def)

theorem compute_kernel_unrecognized_witness:
  "''linear'' \<noteq> ''rbf'' \<and> ''linear'' \<noteq> ''raphy'' \<and> ''linear'' \<noteq> ''multi-scale-rbf''
     \<and> compute_kernel [[1, 2]] [[3, 4]] ''linear'' (Map.empty(''scales'' \<mapsto> [1])) = None"
  using compute_kernel_unrecognized
    [of "''linear''" "[[1, 2]]" "[[3, 4]]" "Map.empty(''scales'' \<mapsto> [1])"]
  by simp

lemma compute_kernel_supported:
  "kernel' \<in> {''rbf'', ''raphy'', ''multi-scale-rbf''}
     \<Longrightarrow> \<exists>k. compute_kernel x y kernel' kw = Some k"
  by (auto simp add: compute_kernel_def Let_def)

text \<open>
  C5: for each of the three supported kernels and every tensor \<open>x\<close>,
  \<open>compute_mmd(x, x, kernel)\<close> returns 0 in exact arithmetic: the three kernel
  matrices are the same one, and mean + mean - 2 * mean vanishes. The statement is
  about the reals: rounding is not modelled, and where the float runtime would
  divide by a zero count (a tensor without entries) the mean has its HOL value.
\<close>

theorem compute_mmd_self:
  "kernel' \<in> {''rbf'', ''raphy'', ''multi-scale-rbf''} \<Longrightarrow> compute_mmd x x kernel' kw = Inr 0"
proof -
  assume "kernel' \<in> {''rbf'', ''raphy'', ''multi-scale-rbf''}"
  then obtain k where k: "compute_kernel x x kernel' kw = Some k"
    using compute_kernel_supported by blast
  show ?thesis
    by (simp add: compute_mmd_def k)
qed

theorem compute_mmd_self_witness:
  "''rbf'' \<in> {''rbf'', ''raphy'', ''multi-scale-rbf''}
     \<and> compute_mmd [[1, 2], [3, 5]] [[1, 2], [3, 5]] ''rbf'' Map.empty = Inr 0"
  using compute_mmd_self [of "''rbf''" "[[1, 2], [3, 5]]" Map.empty]
  by simp

subsection \<open>sample_z\<close>

lemma nth_tensor_map2:
  "i < length s \<Longrightarrow> i < length t \<Longrightarrow> j < length (s ! i) \<Longrightarrow> j < length (t ! i)
     \<Longrightarrow> tensor_map2 f s t ! i ! j = f (s ! i ! j) (t ! i ! j)"
  by (simp add: tensor_map2_def)

lemma has_shape_tensor_map2:
  assumes s: "has_shape s sh" and t: "has_shape t sh"
  shows "has_shape (tensor_map2 f s t) sh"
proof -
  have "length (map2 f a b) = snd sh" if ab: "(a, b) \<in> set (zip s t)" for a b
    using s t set_zip_leftD [OF ab] set_zip_rightD [OF ab]
    by (simp add: has_shape_def list_all_iff)
  then show ?thesis
    using s t by (auto simp: has_shape_def tensor_map2_def list_all_iff)
qed

lemma exp_half_at_bot: "((\<lambda>c::real. exp (c / 2)) \<longlongrightarrow> 0) at_bot"
proof -
  have "filterlim (\<lambda>c::real. (1 / 2) * c) at_bot at_bot"
    by (rule filterlim_tendsto_pos_mult_at_bot [OF tendsto_const _ filterlim_ident]) simp
  then have "filterlim (\<lambda>c::real. c / 2) at_bot at_bot" by simp
  then show ?thesis
    by (rule filterlim_compose [OF exp_at_bot])
qed

lemma has_shape_nth:
  "has_shape t (b, z) \<Longrightarrow> i < b \<Longrightarrow> length (t ! i) = z"
  by (simp add: has_shape_def list_all_length)

lemma has_shape_n_cols:
  "has_shape t (b, z) \<Longrightarrow> 0 < b \<Longrightarrow> n_cols t = z"
  by (cases t) (auto simp: has_shape_def n_cols_def)

lemma has_shape_map:
  "has_shape t sh \<Longrightarrow> has_shape (map (map f) t) sh"
  by (simp add: has_shape_def list_all_iff)

lemma has_shape_replicate: "has_shape (replicate b (replicate z c)) (b, z)"
  by (simp add: has_shape_def list_all_iff)

lemma sample_z_entry:
  assumes mu: "has_shape mu (b, z)" and lv: "has_shape log_var (b, z)"
    and eps: "has_shape (fst (random_normal g (length mu, n_cols mu))) (length mu, n_cols mu)"
    and i: "i < b" and j: "j < z"
  shows "fst (sample_z random_normal g (mu, log_var)) ! i ! j =
           mu ! i ! j + exp (log_var ! i ! j / 2) * fst (random_normal g (length mu, n_cols mu)) ! i ! j"
proof -
  let ?eps = "fst (random_normal g (length mu, n_cols mu))"
  have b: "length mu = b" using mu by (simp add: has_shape_def)
  have z: "n_cols mu = z" using mu i by (intro has_shape_n_cols) auto
  have eps': "has_shape ?eps (b, z)" using eps by (simp add: b z)
  let ?e = "map (map (\<lambda>v. exp (v / 2))) log_var"
  have e: "has_shape ?e (b, z)" using lv by (rule has_shape_map)
  have prod: "has_shape (tensor_map2 (*) ?e ?eps) (b, z)"
    using e eps' by (rule has_shape_tensor_map2)
  have lens: "length log_var = b" "length ?eps = b" "length (tensor_map2 (*) ?e ?eps) = b"
    using lv eps' prod by (simp_all add: has_shape_def)
  have "fst (sample_z random_normal g (mu, log_var)) = tensor_map2 (+) mu (tensor_map2 (*) ?e ?eps)"
    by (simp add: sample_z_def Let_def split_beta)
  also have "\<dots> ! i ! j = mu ! i ! j + tensor_map2 (*) ?e ?eps ! i ! j"
    using i j b lens has_shape_nth [OF mu i] has_shape_nth [OF prod i]
    by (intro nth_tensor_map2) simp_all
  also have "tensor_map2 (*) ?e ?eps ! i ! j = ?e ! i ! j * ?eps ! i ! j"
    using i j lens has_shape_nth [OF e i] has_shape_nth [OF eps' i]
    by (intro nth_tensor_map2) simp_all
  also have "?e ! i ! j = exp (log_var ! i ! j / 2)"
    using i j lens has_shape_nth [OF lv i] by simp
  finally show ?thesis .
qed

text \<open>
  C8: \<open>sample_z((mu, log_var))\<close> draws from the random generator one noise tensor
  \<open>eps\<close> of shape \<open>[batch_size, z_dim]\<close> and returns \<open>mu + exp(log_var / 2) * eps\<close>,
  entry by entry, in the shape of \<open>mu\<close>: given \<open>eps\<close> the output is a function of
  \<open>mu\<close> and \<open>log_var\<close> alone. When every entry of \<open>log_var\<close> is the same number and
  that number tends to minus infinity, every entry of the output tends to the entry
  of \<open>mu\<close>. That the generator's draw is standard normal is a property of the
  generator, which is a parameter here; all it is asked for is the requested shape.
\<close>

theorem sample_z_reparametrization:
  assumes mu: "has_shape mu (b, z)" and lv: "has_shape log_var (b, z)"
    and eps: "has_shape (fst (random_normal g (length mu, n_cols mu))) (length mu, n_cols mu)"
  shows "(\<forall>i<b. \<forall>j<z. fst (sample_z random_normal g (mu, log_var)) ! i ! j =
             mu ! i ! j + exp (log_var ! i ! j / 2) * fst (random_normal g (length mu, n_cols mu)) ! i ! j)
       \<and> has_shape (fst (sample_z random_normal g (mu, log_var))) (b, z)
       \<and> snd (sample_z random_normal g (mu, log_var)) = snd (random_normal g (length mu, n_cols mu))
       \<and> (\<forall>i<b. \<forall>j<z.
            ((\<lambda>c. fst (sample_z random_normal g (mu, replicate b (replicate z c))) ! i ! j)
               \<longlongrightarrow> mu ! i ! j) at_bot)"
proof (intro conjI allI impI)
  fix i j assume "i < b" "j < z"
  then show "fst (sample_z random_normal g (mu, log_var)) ! i ! j =
             mu ! i ! j + exp (log_var ! i ! j / 2) * fst (random_normal g (length mu, n_cols mu)) ! i ! j"
    using sample_z_entry [of mu b z log_var random_normal g i j] mu lv eps by blast
next
  let ?eps = "fst (random_normal g (length mu, n_cols mu))"
  have b: "length mu = b" using mu by (simp add: has_shape_def)
  show "has_shape (fst (sample_z random_normal g (mu, log_var))) (b, z)"
  proof (cases "b = 0")
    case True
    then show ?thesis using b by (simp add: sample_z_def Let_def split_beta tensor_map2_def has_shape_def)
  next
    case False
    then have z: "n_cols mu = z" using mu by (intro has_shape_n_cols) auto
    have eps': "has_shape ?eps (b, z)" using eps by (simp add: b z)
    have "has_shape (tensor_map2 (+) mu (tensor_map2 (*) (map (map (\<lambda>v. exp (v / 2))) log_var) ?eps)) (b, z)"
      by (intro has_shape_tensor_map2 has_shape_map mu lv eps')
    then show ?thesis by (simp add: sample_z_def Let_def split_beta)
  qed
next
  show "snd (sample_z random_normal g (mu, log_var)) = snd (random_normal g (length mu, n_cols mu))"
    by (simp add: sample_z_def Let_def split_beta)
next
  fix i j assume i: "i < b" and j: "j < z"
  let ?eps = "fst (random_normal g (length mu, n_cols mu))"
  have entry: "fst (sample_z random_normal g (mu, replicate b (replicate z c))) ! i ! j =
           mu ! i ! j + exp (c / 2) * ?eps ! i ! j" for c
    using sample_z_entry [of mu b z "replicate b (replicate z c)" random_normal g i j]
      mu has_shape_replicate [of b z c] eps i j by simp
  have "((\<lambda>c. mu ! i ! j + exp (c / 2) * ?eps ! i ! j) \<longlongrightarrow> mu ! i ! j + 0 * ?eps ! i ! j) at_bot"
    by (intro tendsto_add tendsto_mult tendsto_const exp_half_at_bot)
  then show "((\<lambda>c. fst (sample_z random_normal g (mu, replicate b (replicate z c))) ! i ! j)
               \<longlongrightarrow> mu ! i ! j) at_bot"
    by (simp add: entry)
qed

theorem sample_z_reparametrization_witness:
  "fst (sample_z (\<lambda>g (b, z). (replicate b (replicate z 3), Suc g)) 0 ([[1, 2]], [[0, 0]])) ! 0 ! 1
     = 2 + exp (0 / 2) * 3
   \<and> snd (sample_z (\<lambda>g (b, z). (replicate b (replicate z 3), Suc g)) 0 ([[1, 2]], [[0, 0]])) = Suc 0
   \<and> ((\<lambda>c. fst (sample_z (\<lambda>g (b, z). (replicate b (replicate z 3), Suc g)) 0
                   ([[1, 2]], replicate 1 (replicate 2 c))) ! 0 ! 1) \<longlongrightarrow> 2) at_bot"
proof -
  let ?rn = "\<lambda>(g::nat) (b, z). (replicate b (replicate z (3::real)), Suc g)"
  have h1: "has_shape [[1, 2]] (1, 2)" and h2: "has_shape [[0, 0]] (1, 2)"
    and h3: "has_shape (fst (?rn 0 (length [[1, 2::real]], n_cols [[1, 2]])))
               (length [[1, 2::real]], n_cols [[1, 2]])"
    by (simp_all add: has_shape_def n_cols_def)
  note t = sample_z_reparametrization [of "[[1, 2]]" 1 2 "[[0, 0]]" ?rn 0, OF h1 h2 h3]
  from t have a: "\<forall>i<1. \<forall>j<2. fst (sample_z ?rn 0 ([[1, 2]], [[0, 0]])) ! i ! j =
             [[1, 2]] ! i ! j + exp ([[0, 0]] ! i ! j / 2) * fst (?rn 0 (length [[1, 2::real]], n_cols [[1, 2]])) ! i ! j"
    by blast
  from t have b: "snd (sample_z ?rn 0 ([[1, 2]], [[0, 0]])) = snd (?rn 0 (length [[1, 2::real]], n_cols [[1, 2]]))"
    by blast
  from t have c: "\<forall>i<1. \<forall>j<2.
            ((\<lambda>c. fst (sample_z ?rn 0 ([[1, 2]], replicate 1 (replicate 2 c))) ! i ! j)
               \<longlongrightarrow> [[1, 2]] ! i ! j) at_bot"
    by blast
  have a': "fst (sample_z ?rn 0 ([[1, 2]], [[0, 0]])) ! 0 ! 1 = 2 + exp (0 / 2) * 3"
    using a [rule_format, of 0 1] by (simp add: n_cols_def)
  have c': "((\<lambda>c. fst (sample_z ?rn 0 ([[1, 2]], replicate 1 (replicate 2 c))) ! 0 ! 1) \<longlongrightarrow> 2) at_bot"
    using c [rule_format, of 0 1] by simp
  show ?thesis using a' b c' by (simp add: n_cols_def)
qed

section \<open>Properties of surgeon/utils.py\<close>

subsection \<open>label_encoder with a dict\<close>







subsection \<open>train_test_split\<close>

lemma py_take_drop: "py_take k xs @ py_drop k xs = xs"
  by (simp add: py_take_def py_drop_def)

lemma py_int_nonneg: "0 \<le> r \<Longrightarrow> py_int (Finite r) = Inr \<lfloor>r\<rfloor>"
  by (simp add: py_int_def)

text \<open>Evaluating \<open>round_double\<close> once the binary exponent is known.\<close>

lemma pow2_pos: "0 < pow2 e"
  by (simp add: pow2_def)

lemma pow2_powr: "pow2 e = 2 powr real_of_int e"
  by (simp add: pow2_def powr_real_of_int inverse_eq_divide)

lemma exponent_eq:
  assumes "pow2 e \<le> \<bar>x\<bar>" and "\<bar>x\<bar> < pow2 (e + 1)"
  shows "exponent x = e"
proof -
  have pos: "0 < \<bar>x\<bar>"
    using assms(1) pow2_pos [of e] by linarith
  have lo: "real_of_int e \<le> log 2 \<bar>x\<bar>"
    using assms(1) pos by (simp add: le_log_iff pow2_powr)
  have hi: "log 2 \<bar>x\<bar> < real_of_int e + 1"
    using assms(2) pos by (simp add: log_less_iff pow2_powr)
  show ?thesis
    unfolding exponent_def using lo hi by (intro floor_unique) simp_all
qed

lemma round_double_at:
  assumes "pow2 e \<le> \<bar>x\<bar>" and "\<bar>x\<bar> < pow2 (e + 1)"
  shows "round_double x =
           (let ulp = pow2 (max e (- 1022) - 52);
                r = real_of_int (round_half_even (x / ulp)) * ulp
            in if pow2 1024 \<le> \<bar>r\<bar> then Infinite else Finite r)"
proof -
  have "x \<noteq> 0"
    using assms(1) pow2_pos [of e] by auto
  then show ?thesis
    by (simp add: round_double_def exponent_eq [OF assms])
qed

text \<open>
  Some products as the float runtime computes them. The doubles written \<open>0.8\<close>,
  \<open>0.85\<close> and \<open>0.29\<close> in Python are \<open>3602879701896397 / 2^52\<close>,
  \<open>7656119366529843 / 2^53\<close> and \<open>5224175567749775 / 2^54\<close>. The second is below
  \<open>85 / 100\<close>, yet its product with 100 rounds to 85; the product of the third with
  100 stays below 29, and \<open>int\<close> of it is 28.
\<close>

lemma double_product_100_080:
  "double_product 100 (Finite (3602879701896397 / 2 ^ 52)) = Finite 80"
proof -
  have n: "round_double 100 = Finite 100"
    using round_double_at [of 6 100]
    by (simp add: pow2_def round_half_even_def Let_def)
  have "round_double (100 * (3602879701896397 / 2 ^ 52)) = Finite 80"
    using round_double_at [of 6 "100 * (3602879701896397 / 2 ^ 52)"]
    by (simp add: pow2_def round_half_even_def Let_def)
  then show ?thesis
    by (simp add: double_product_def n)
qed

lemma double_product_100_085:
  "double_product 100 (Finite (7656119366529843 / 2 ^ 53)) = Finite 85"
proof -
  have n: "round_double 100 = Finite 100"
    using round_double_at [of 6 100]
    by (simp add: pow2_def round_half_even_def Let_def)
  have "round_double (100 * (7656119366529843 / 2 ^ 53)) = Finite 85"
    using round_double_at [of 6 "100 * (7656119366529843 / 2 ^ 53)"]
    by (simp add: pow2_def round_half_even_def Let_def)
  then show ?thesis
    by (simp add: double_product_def n)
qed

lemma double_product_100_029:
  "py_int (double_product 100 (Finite (5224175567749775 / 2 ^ 54))) = Inr 28"
proof -
  have n: "round_double 100 = Finite 100"
    using round_double_at [of 6 100]
    by (simp add: pow2_def round_half_even_def Let_def)
  have "round_double (100 * (5224175567749775 / 2 ^ 54)) = Finite (8162774324609023 / 2 ^ 48)"
    using round_double_at [of 4 "100 * (5224175567749775 / 2 ^ 54)"]
    by (simp add: pow2_def round_half_even_def Let_def)
  then show ?thesis
    by (simp add: double_product_def n py_int_def)
qed

lemma double_product_4_minus_0375:
  "double_product 4 (Finite (- 3 / 8)) = Finite (- 3 / 2)"
proof -
  have n: "round_double 4 = Finite 4"
    using round_double_at [of 2 4]
    by (simp add: pow2_def round_half_even_def Let_def)
  have "round_double (4 * (- 3 / 8)) = Finite (- 3 / 2)"
    using round_double_at [of 0 "4 * (- 3 / 8)"]
    by (simp add: pow2_def round_half_even_def Let_def)
  then show ?thesis
    by (simp add: double_product_def n)
qed

text \<open>
  C6, as amended: for every annotated matrix with \<open>n\<close> rows, every shuffle that
  permutes the row positions and every \<open>train_frac\<close> whose product with \<open>n\<close> the
  float runtime computes as a finite \<open>p\<close>, \<open>train_test_split\<close> splits the shuffled
  positions at \<open>int(p)\<close>, which truncates toward zero and is \<open>floor(p)\<close> whenever
  \<open>p\<close> is not negative. The two row subsets it returns are disjoint and together
  hold every row exactly once; when \<open>p\<close> lies between 0 and \<open>n\<close> their sizes are
  \<open>floor(p)\<close> and the rest.
\<close>

theorem train_test_split_partition:
  assumes "mset (fst (shuffle g [0..<length (obs_names a)])) = mset [0..<length (obs_names a)]"
    and "product (length (obs_names a)) train_frac = Finite p"
  shows "let n = length (obs_names a);
             indices = fst (shuffle g [0..<n]);
             train_size = (if 0 \<le> p then \<lfloor>p\<rfloor> else \<lceil>p\<rceil>);
             train_idx = py_take train_size indices;
             test_idx = py_drop train_size indices
         in train_test_split product shuffle g a train_frac =
              Inr ((select_rows a train_idx, select_rows a test_idx), snd (shuffle g [0..<n]))
          \<and> train_idx @ test_idx = indices
          \<and> mset (train_idx @ test_idx) = mset [0..<n]
          \<and> distinct (train_idx @ test_idx)
          \<and> set train_idx \<inter> set test_idx = {}
          \<and> set train_idx \<union> set test_idx = {0..<n}
          \<and> (0 \<le> p \<longrightarrow> train_size = \<lfloor>p\<rfloor>)
          \<and> (0 \<le> p \<and> p \<le> real n \<longrightarrow>
                length train_idx = nat \<lfloor>p\<rfloor> \<and> length test_idx = n - nat \<lfloor>p\<rfloor>)"
proof -
  define n where "n = length (obs_names a)"
  define indices where "indices = fst (shuffle g [0..<n])"
  define train_size where "train_size = (if 0 \<le> p then \<lfloor>p\<rfloor> else \<lceil>p\<rceil>)"
  define train_idx where "train_idx = py_take train_size indices"
  define test_idx where "test_idx = py_drop train_size indices"
  have perm: "mset indices = mset [0..<n]"
    using assms(1) by (simp add: indices_def n_def)
  have app: "train_idx @ test_idx = indices"
    by (simp add: train_idx_def test_idx_def py_take_drop)
  have dist: "distinct indices"
    using perm by (metis distinct_upt mset_eq_imp_distinct_iff)
  have set_eq: "set indices = {0..<n}"
    using perm by (metis mset_eq_setD set_upt)
  have len: "length indices = n"
    using perm by (metis length_upt mset_eq_length minus_nat.diff_0)
  have size: "py_int (product n train_frac) = Inr train_size"
    using assms(2) by (simp add: py_int_def train_size_def n_def)
  have res: "train_test_split product shuffle g a train_frac =
      Inr ((select_rows a train_idx, select_rows a test_idx), snd (shuffle g [0..<n]))"
    using size
    by (simp add: train_test_split_def split_indices_def Let_def split_beta
        n_def indices_def train_idx_def test_idx_def)
  have disj: "set train_idx \<inter> set test_idx = {}"
    using dist app by (metis distinct_append)
  have un: "set train_idx \<union> set test_idx = {0..<n}"
    using set_eq app by (metis set_append)
  have fl: "0 \<le> p \<longrightarrow> train_size = \<lfloor>p\<rfloor>"
    by (simp add: train_size_def)
  have sizes: "0 \<le> p \<and> p \<le> real n \<longrightarrow>
                length train_idx = nat \<lfloor>p\<rfloor> \<and> length test_idx = n - nat \<lfloor>p\<rfloor>"
  proof
    assume f: "0 \<le> p \<and> p \<le> real n"
    then have ts: "train_size = \<lfloor>p\<rfloor>" using fl by simp
    have "\<lfloor>p\<rfloor> \<le> int n"
      using f by (simp add: floor_le_iff)
    moreover have "0 \<le> \<lfloor>p\<rfloor>"
      using f by simp
    ultimately show "length train_idx = nat \<lfloor>p\<rfloor> \<and> length test_idx = n - nat \<lfloor>p\<rfloor>"
      by (simp add: train_idx_def test_idx_def py_take_def py_drop_def ts len)
  qed
  show ?thesis
    unfolding Let_def n_def [symmetric] indices_def [symmetric] train_size_def [symmetric]
      train_idx_def [symmetric] test_idx_def [symmetric]
    using res app perm dist disj un fl sizes by simp
qed

theorem train_test_split_partition_witness:
  "\<exists>train_data valid_data g'.
     train_test_split double_product (\<lambda>g xs. (rev xs, Suc g)) (0::nat)
       \<lparr>X = replicate 100 [0], obs_names = replicate 100 ''cell'', var_names = [''g1''],
        obs = Map.empty, var = Map.empty\<rparr> (Finite (3602879701896397 / 2 ^ 52))
       = Inr ((train_data, valid_data), g')
     \<and> length (obs_names train_data) = 80 \<and> length (obs_names valid_data) = 20"
proof -
  let ?a = "\<lparr>X = replicate 100 [0], obs_names = replicate 100 ''cell'', var_names = [''g1''],
        obs = Map.empty, var = Map.empty\<rparr>"
  have h1: "mset (fst ((\<lambda>g xs. (rev xs, Suc g)) (0::nat) [0..<length (obs_names ?a)]))
              = mset [0..<length (obs_names ?a)]"
    by simp
  have h2: "double_product (length (obs_names ?a)) (Finite (3602879701896397 / 2 ^ 52)) = Finite 80"
    using double_product_100_080 by simp
  from train_test_split_partition
    [where shuffle = "\<lambda>g xs. (rev xs, Suc g)" and g = "0::nat" and a = ?a
       and product = double_product and train_frac = "Finite (3602879701896397 / 2 ^ 52)"
       and p = 80, OF h1 h2]
  show ?thesis
    by (simp add: Let_def select_rows_def py_take_def py_drop_def)
qed

text \<open>
  C6 as stated fails for a negative \<open>train_frac\<close>: with 4 rows and
  \<open>train_frac = -0.375\<close> the product is exactly \<open>-1.5\<close>, \<open>int\<close> gives \<open>-1\<close> and the
  split is 3 rows and 1 row, while \<open>floor\<close> gives \<open>-2\<close> and a split at it would be
  2 and 2.
\<close>

theorem train_test_split_floor_counterexample:
  "double_product 4 (Finite (- 3 / 8)) = Finite (- 3 / 2)
   \<and> train_test_split double_product (\<lambda>g xs. (xs, g)) ()
          \<lparr>X = [[1], [2], [3], [4]], obs_names = [''c0'', ''c1'', ''c2'', ''c3''],
           var_names = [''g0''], obs = Map.empty, var = Map.empty\<rparr> (Finite (- 3 / 8))
     \<noteq> Inr ((select_rows
          \<lparr>X = [[1], [2], [3], [4]], obs_names = [''c0'', ''c1'', ''c2'', ''c3''],
           var_names = [''g0''], obs = Map.empty, var = Map.empty\<rparr>
          (py_take \<lfloor>- 3 / 2 :: real\<rfloor> [0..<4]),
         select_rows
          \<lparr>X = [[1], [2], [3], [4]], obs_names = [''c0'', ''c1'', ''c2'', ''c3''],
           var_names = [''g0''], obs = Map.empty, var = Map.empty\<rparr>
          (py_drop \<lfloor>- 3 / 2 :: real\<rfloor> [0..<4])), ())"
proof -
  have p: "double_product (Suc (Suc (Suc (Suc 0)))) (Finite (- (3 / 8))) = Finite (- (3 / 2))"
    using double_product_4_minus_0375 by (simp add: eval_nat_numeral)
  show ?thesis
    using double_product_4_minus_0375
    by (simp add: train_test_split_def split_indices_def py_int_def py_take_def py_drop_def
        select_rows_def upt_rec p)
qed

subsection \<open>hvg_batch\<close>

text \<open>Counting the genes of the table by their number of batches.\<close>

lemma length_series_where:
  "length (series_where p names ns ds) = length (filter (\<lambda>(g, n, d). p n) (zip names (zip ns ds)))"
  by (simp add: series_where_def)

lemma count_le_split:
  "length (filter (\<lambda>(g, n, d). n \<le> (c::int)) t) =
     length (filter (\<lambda>(g, n, d). n = c) t) + length (filter (\<lambda>(g, n, d). n \<le> c - 1) t)"
  by (induction t) auto

lemma count_gt_le:
  "length (filter (\<lambda>(g, n, d). n > (c::int)) t) + length (filter (\<lambda>(g, n, d). n \<le> c) t) = length t"
  by (induction t) auto

lemma length_py_take: "0 \<le> k \<Longrightarrow> k \<le> int (length xs) \<Longrightarrow> int (length (py_take k xs)) = k"
  by (simp add: py_take_def)

lemma length_sort_values_desc [simp]: "length (sort_values_desc xs) = length xs"
  by (simp add: sort_values_desc_def)

lemma mset_sort_values_desc [simp]: "mset (sort_values_desc xs) = mset xs"
  by (simp add: sort_values_desc_def)

lemma hvg_fill_loop_terminates:
  assumes lo: "\<forall>n\<in>set ns. lo \<le> n"
    and len: "length ns = length names" "length ds = length names"
    and inv: "target_genes - int (length hvg)
                \<le> int (length (filter (\<lambda>(g, n, d). n \<le> n_batches - not_n_batches) (zip names (zip ns ds))))"
  shows "\<exists>res. hvg_fill_loop names ns ds n_batches target_genes hvg not_n_batches = Some res
           \<and> (int (length hvg) \<le> target_genes \<longrightarrow> int (length res) = target_genes)"
  using inv
proof (induction "nat (n_batches - not_n_batches + 1 - lo)" arbitrary: hvg not_n_batches rule: less_induct)
  case less
  let ?t = "zip names (zip ns ds)"
  let ?tmp = "series_where (\<lambda>n. n = n_batches - not_n_batches) names ns ds"
  let ?diff = "target_genes - int (length hvg)"
  show ?case
  proof (cases "int (length ?tmp) < ?diff")
    case True
    have split: "length (filter (\<lambda>(g, n, d). n \<le> n_batches - not_n_batches) ?t) =
        length ?tmp + length (filter (\<lambda>(g, n, d). n \<le> n_batches - (not_n_batches + 1)) ?t)"
      using count_le_split [of "n_batches - not_n_batches" ?t]
      by (simp add: length_series_where algebra_simps)
    have inv': "target_genes - int (length (hvg @ map fst ?tmp))
            \<le> int (length (filter (\<lambda>(g, n, d). n \<le> n_batches - (not_n_batches + 1)) ?t))"
      using less.prems split by simp
    have "filter (\<lambda>(g, n, d). n \<le> n_batches - not_n_batches) ?t \<noteq> []"
      using less.prems True by auto
    then obtain g n d where mem: "(g, n, d) \<in> set ?t" and le: "n \<le> n_batches - not_n_batches"
      by (metis (mono_tags, lifting) filter_False prod_cases3 case_prod_conv)
    have "n \<in> set ns" using mem by (meson set_zip_leftD set_zip_rightD)
    then have "lo \<le> n" using lo by blast
    then have dec: "nat (n_batches - (not_n_batches + 1) + 1 - lo) < nat (n_batches - not_n_batches + 1 - lo)"
      using le by simp
    from less.hyps [OF dec inv'] obtain res where
      res: "hvg_fill_loop names ns ds n_batches target_genes (hvg @ map fst ?tmp) (not_n_batches + 1) = Some res"
      and rl: "int (length (hvg @ map fst ?tmp)) \<le> target_genes \<longrightarrow> int (length res) = target_genes"
      by blast
    have "hvg_fill_loop names ns ds n_batches target_genes hvg not_n_batches = Some res"
      by (subst hvg_fill_loop.simps) (simp add: True res Let_def)
    moreover have "int (length res) = target_genes"
      using rl True by simp
    ultimately show ?thesis by blast
  next
    case False
    have "hvg_fill_loop names ns ds n_batches target_genes hvg not_n_batches =
        Some (hvg @ py_take ?diff (map fst (sort_values_desc ?tmp)))"
      by (subst hvg_fill_loop.simps) (simp add: False Let_def)
    moreover have "int (length (hvg @ py_take ?diff (map fst (sort_values_desc ?tmp)))) = target_genes"
      if "int (length hvg) \<le> target_genes"
      using that False by (simp add: length_py_take)
    ultimately show ?thesis by blast
  qed
qed



lemma lower_bound_exists: "\<exists>lo::int. \<forall>n\<in>set ns. lo \<le> n"
proof (cases "ns = []")
  case True
  then show ?thesis by simp
next
  case False
  then have "\<forall>n\<in>set ns. Min (set ns) \<le> n" by simp
  then show ?thesis by blast
qed

lemma hvg_batch_genes:
  assumes "obs (s ! r) batch_key = Some (Categorical cats vals)"
  shows "hvg_batch hv s r (Some batch_key) target_genes flavor n_bins False =
     (let stats = hv (s ! r) flavor target_genes n_bins (Some batch_key) in
      case hvg_from_table (var_names (s ! r)) (map (\<lambda>t. fst (snd t)) stats)
             (map (\<lambda>t. snd (snd t)) stats) (length cats) (length cats) target_genes of
        None \<Rightarrow> None
      | Some hvg \<Rightarrow>
          Some (Inr (GeneList hvg,
            highly_variable_genes hv (s @ [s ! r]) (length s) flavor target_genes n_bins (Some batch_key))))"
  using assms
  by (simp add: hvg_batch_def copy_def n_categories_def highly_variable_genes_def
      var_floats_def var_ints_def Let_def split: option.splits)


lemma hvg_fill_loop_short:
  assumes ret: "hvg_fill_loop names ns ds n_batches target_genes hvg not_n_batches = Some res"
  shows "\<not> int (length hvg)
             + int (length (filter (\<lambda>(g, n, d). n \<le> n_batches - not_n_batches) (zip names (zip ns ds))))
           < target_genes"
proof (rule hvg_fill_loop.raw_induct
    [where P = "\<lambda>names ns ds n_batches target_genes hvg not_n_batches res.
       \<not> int (length hvg)
             + int (length (filter (\<lambda>(g, n, d). n \<le> n_batches - not_n_batches) (zip names (zip ns ds))))
           < target_genes", OF _ ret], goal_cases)
  case (1 loop names ns ds n_batches target_genes hvg not_n_batches res)
  let ?t = "zip names (zip ns ds)"
  let ?tmp = "series_where (\<lambda>n. n = n_batches - not_n_batches) names ns ds"
  show ?case
  proof
    assume short: "int (length hvg)
        + int (length (filter (\<lambda>(g, n, d). n \<le> n_batches - not_n_batches) ?t)) < target_genes"
    have split: "length (filter (\<lambda>(g, n, d). n \<le> n_batches - not_n_batches) ?t) =
        length ?tmp + length (filter (\<lambda>(g, n, d). n \<le> n_batches - (not_n_batches + 1)) ?t)"
      using count_le_split [of "n_batches - not_n_batches" ?t]
      by (simp add: length_series_where algebra_simps)
    have less: "int (length ?tmp) < target_genes - int (length hvg)"
      using short split by simp
    have "loop names ns ds n_batches target_genes (hvg @ map fst ?tmp) (not_n_batches + 1) = Some res"
      using 1(2) less by (simp add: Let_def)
    then have "\<not> int (length (hvg @ map fst ?tmp))
             + int (length (filter (\<lambda>(g, n, d). n \<le> n_batches - (not_n_batches + 1)) ?t))
           < target_genes"
      by (rule 1(1))
    then show False using short split by simp
  qed
qed

lemma hvg_fill_loop_diverges:
  "int (length hvg)
     + int (length (filter (\<lambda>(g, n, d). n \<le> n_batches - not_n_batches) (zip names (zip ns ds))))
     < target_genes
   \<Longrightarrow> hvg_fill_loop names ns ds n_batches target_genes hvg not_n_batches = None"
  using hvg_fill_loop_short by (cases "hvg_fill_loop names ns ds n_batches target_genes hvg not_n_batches") blast+

lemma first_set_split:
  assumes "length ns = length names" "length ds = length names"
  shows "int (length (series_where (\<lambda>n. n > int n_cats - 1) names ns ds))
       + int (length (filter (\<lambda>(g, n, d). n \<le> int n_cats - 1) (zip names (zip ns ds))))
       = int (length names)"
  using count_gt_le [of "int n_cats - 1" "zip names (zip ns ds)"] assms
  by (simp add: length_series_where)

lemma hvg_from_table_enough:
  assumes len: "length ns = length names" "length ds = length names"
    and enough: "target_genes \<le> int (length names)"
  shows "\<exists>hvg. hvg_from_table names ns ds n_batches n_batches target_genes = Some hvg
           \<and> (0 \<le> target_genes \<longrightarrow> int (length hvg) = target_genes)"
proof -
  let ?first = "sort_values_desc (series_where (\<lambda>n. n > int n_batches - 1) names ns ds)"
  show ?thesis
  proof (cases "int (length ?first) > target_genes")
    case True
    then show ?thesis
      by (simp add: hvg_from_table_def Let_def length_py_take)
  next
    case False
    obtain lo where lo: "\<forall>n\<in>set ns. lo \<le> n"
      using lower_bound_exists by blast
    have inv: "target_genes - int (length (map fst ?first))
        \<le> int (length (filter (\<lambda>(g, n, d). n \<le> int n_batches - 1) (zip names (zip ns ds))))"
      using first_set_split [OF len, of n_batches] enough by simp
    from hvg_fill_loop_terminates [OF lo len inv] False
    show ?thesis
      by (simp add: hvg_from_table_def Let_def)
  qed
qed

lemma hvg_from_table_short:
  assumes len: "length ns = length names" "length ds = length names"
    and short: "int (length names) < target_genes"
  shows "hvg_from_table names ns ds n_batches n_batches target_genes = None"
proof -
  let ?first = "sort_values_desc (series_where (\<lambda>n. n > int n_batches - 1) names ns ds)"
  have le: "int (length ?first) \<le> int (length names)"
    using first_set_split [OF len, of n_batches] by simp
  have "int (length (map fst ?first))
     + int (length (filter (\<lambda>(g, n, d). n \<le> int n_batches - 1) (zip names (zip ns ds))))
     < target_genes"
    using first_set_split [OF len, of n_batches] short by simp
  then have "hvg_fill_loop names ns ds (int n_batches) target_genes (map fst ?first) 1 = None"
    by (rule hvg_fill_loop_diverges)
  then show ?thesis
    using le short by (simp add: hvg_from_table_def Let_def)
qed

text \<open>
  With a batch key that names a categorical column, \<open>hvg_batch\<close> is the selection
  of lines 127 to 156 on the table of the statistics routine; the routine has
  written into the copy (\<open>adataOut=False\<close>) or into the input (\<open>adataOut=True\<close>).
\<close>

lemma hvg_batch_matrix:
  assumes "r < length s" and "obs (s ! r) batch_key = Some (Categorical cats vals)"
  shows "hvg_batch hv s r (Some batch_key) target_genes flavor n_bins True =
     (let stats = hv (s ! r) flavor target_genes n_bins (Some batch_key);
          s2 = highly_variable_genes hv s r flavor target_genes n_bins (Some batch_key) in
      case hvg_from_table (var_names (s ! r)) (map (\<lambda>t. fst (snd t)) stats)
             (map (\<lambda>t. snd (snd t)) stats) (length cats) (length cats) target_genes of
        None \<Rightarrow> None
      | Some hvg \<Rightarrow>
          (case select_vars (s2 ! r) hvg of
             Inl e \<Rightarrow> Some (Inl e)
           | Inr v \<Rightarrow> Some (Inr (Matrix (length s2), s2 @ [v]))))"
  using assms
  by (simp add: hvg_batch_def n_categories_def highly_variable_genes_def
      var_floats_def var_ints_def Let_def split: option.splits)

lemma hvg_batch_returns:
  assumes "obs (s ! r) batch_key = Some (Categorical cats vals)"
    and "length (hv (s ! r) flavor target_genes n_bins (Some batch_key)) = length (var_names (s ! r))"
    and "target_genes \<le> int (length (var_names (s ! r)))"
  shows "\<exists>hvg s'. hvg_batch hv s r (Some batch_key) target_genes flavor n_bins False
                     = Some (Inr (GeneList hvg, s'))"
proof -
  let ?stats = "hv (s ! r) flavor target_genes n_bins (Some batch_key)"
  obtain hvg where
    "hvg_from_table (var_names (s ! r)) (map (\<lambda>t. fst (snd t)) ?stats)
       (map (\<lambda>t. snd (snd t)) ?stats) (length cats) (length cats) target_genes = Some hvg"
    using hvg_from_table_enough
      [of "map (\<lambda>t. fst (snd t)) ?stats" "var_names (s ! r)" "map (\<lambda>t. snd (snd t)) ?stats"
          target_genes "length cats"] assms(2,3)
    by auto
  then show ?thesis
    by (simp add: hvg_batch_genes [OF assms(1)] Let_def)
qed

text \<open>
  C1: for every annotated matrix whose batch key names a categorical column, whose
  statistics routine gives each gene its number of batches and its normalized
  dispersion, and whose number of genes is at least \<open>target_genes\<close> (a number of
  genes, so not negative), \<open>hvg_batch\<close> with \<open>adataOut=False\<close> returns a list of
  exactly \<open>target_genes\<close> gene names.
\<close>

theorem hvg_batch_length:
  assumes "r < length s"
    and "obs (s ! r) batch_key = Some (Categorical cats vals)"
    and "length (hv (s ! r) flavor target_genes n_bins (Some batch_key)) = length (var_names (s ! r))"
    and "0 \<le> target_genes"
    and "target_genes \<le> int (length (var_names (s ! r)))"
  shows "\<exists>hvg s'. hvg_batch hv s r (Some batch_key) target_genes flavor n_bins False
                     = Some (Inr (GeneList hvg, s'))
                 \<and> int (length hvg) = target_genes"
proof -
  let ?stats = "hv (s ! r) flavor target_genes n_bins (Some batch_key)"
  obtain hvg where
    "hvg_from_table (var_names (s ! r)) (map (\<lambda>t. fst (snd t)) ?stats)
       (map (\<lambda>t. snd (snd t)) ?stats) (length cats) (length cats) target_genes = Some hvg"
    and "int (length hvg) = target_genes"
    using hvg_from_table_enough
      [of "map (\<lambda>t. fst (snd t)) ?stats" "var_names (s ! r)" "map (\<lambda>t. snd (snd t)) ?stats"
          target_genes "length cats"] assms(3,4,5)
    by auto
  then show ?thesis
    by (simp add: hvg_batch_genes [OF assms(2)] Let_def)
qed

theorem hvg_batch_length_witness:
  "\<exists>hvg s'. hvg_batch example_hv [example_adata] 0 (Some ''batch'') 16 ''cell_ranger'' 20 False
               = Some (Inr (GeneList hvg, s'))
           \<and> int (length hvg) = 16"
  using hvg_batch_length
    [where hv = example_hv and s = "[example_adata]" and r = 0 and batch_key = "''batch''"
       and cats = "[''x'', ''y'', ''z'']" and vals = "[''x'', ''y'', ''z'']"
       and flavor = "''cell_ranger''" and n_bins = 20 and target_genes = 16]
  by (simp add: example_adata_def example_hv_def example_stats_def)

text \<open>
  C2: under the same conditions on the input, when the number of genes is at least
  \<open>target_genes\<close> the loop that lowers the agreement level reaches its \<open>enough\<close>
  state and \<open>hvg_batch\<close> returns, for either value of \<open>adataOut\<close>. When the number
  of genes is smaller than \<open>target_genes\<close> the loop goes on below level 0 and never
  ends: \<open>hvg_batch\<close> returns nothing.
\<close>

theorem hvg_batch_terminates:
  assumes "r < length s"
    and "obs (s ! r) batch_key = Some (Categorical cats vals)"
    and "length (hv (s ! r) flavor target_genes n_bins (Some batch_key)) = length (var_names (s ! r))"
  shows "(target_genes \<le> int (length (var_names (s ! r))) \<longrightarrow>
            (\<exists>res. hvg_batch hv s r (Some batch_key) target_genes flavor n_bins adataOut = Some res))
       \<and> (int (length (var_names (s ! r))) < target_genes \<longrightarrow>
            hvg_batch hv s r (Some batch_key) target_genes flavor n_bins adataOut = None)"
proof (intro conjI impI)
  let ?stats = "hv (s ! r) flavor target_genes n_bins (Some batch_key)"
  let ?sel = "hvg_from_table (var_names (s ! r)) (map (\<lambda>t. fst (snd t)) ?stats)
       (map (\<lambda>t. snd (snd t)) ?stats) (length cats) (length cats) target_genes"
  {
    assume "target_genes \<le> int (length (var_names (s ! r)))"
    then obtain hvg where sel: "?sel = Some hvg"
      using hvg_from_table_enough
        [of "map (\<lambda>t. fst (snd t)) ?stats" "var_names (s ! r)" "map (\<lambda>t. snd (snd t)) ?stats"
            target_genes "length cats"] assms(3)
      by auto
    show "\<exists>res. hvg_batch hv s r (Some batch_key) target_genes flavor n_bins adataOut = Some res"
    proof (cases adataOut)
      case True
      then show ?thesis
        by (simp add: hvg_batch_matrix [OF assms(1,2)] Let_def sel split: sum.splits)
    next
      case False
      then show ?thesis
        by (simp add: hvg_batch_genes [OF assms(2)] Let_def sel)
    qed
  }
  {
    assume "int (length (var_names (s ! r))) < target_genes"
    then have sel: "?sel = None"
      using hvg_from_table_short
        [of "map (\<lambda>t. fst (snd t)) ?stats" "var_names (s ! r)" "map (\<lambda>t. snd (snd t)) ?stats"
            target_genes "length cats"] assms(3)
      by auto
    show "hvg_batch hv s r (Some batch_key) target_genes flavor n_bins adataOut = None"
    proof (cases adataOut)
      case True
      then show ?thesis
        by (simp add: hvg_batch_matrix [OF assms(1,2)] Let_def sel)
    next
      case False
      then show ?thesis
        by (simp add: hvg_batch_genes [OF assms(2)] Let_def sel)
    qed
  }
qed

theorem hvg_batch_terminates_witness:
  "(\<exists>res. hvg_batch example_hv [example_adata] 0 (Some ''batch'') 17 ''cell_ranger'' 20 True
            = Some res)
   \<and> hvg_batch example_hv [example_adata] 0 (Some ''batch'') 18 ''cell_ranger'' 20 False = None"
  using hvg_batch_terminates
    [where hv = example_hv and s = "[example_adata]" and r = 0 and batch_key = "''batch''"
       and cats = "[''x'', ''y'', ''z'']" and vals = "[''x'', ''y'', ''z'']"
       and flavor = "''cell_ranger''" and n_bins = 20 and target_genes = 17 and adataOut = True]
    hvg_batch_terminates
    [where hv = example_hv and s = "[example_adata]" and r = 0 and batch_key = "''batch''"
       and cats = "[''x'', ''y'', ''z'']" and vals = "[''x'', ''y'', ''z'']"
       and flavor = "''cell_ranger''" and n_bins = 20 and target_genes = 18 and adataOut = False]
  by (simp add: example_adata_def example_hv_def example_stats_def)

subsection \<open>hvg_batch on five all-batch genes and ten two-batch genes\<close>

lemma sorted_take_drop:
  assumes "sorted (map f xs)" and "x \<in> set (take n xs)" and "y \<in> set (drop n xs)"
  shows "f x \<le> f y"
proof -
  have "sorted (map f (take n xs) @ map f (drop n xs))"
    using assms(1) by (metis append_take_drop_id map_append)
  then show ?thesis
    using assms(2,3) by (auto simp: sorted_append)
qed

lemma sort_values_desc_top:
  assumes "x \<in> set (take k (sort_values_desc series))"
    and "y \<in> set (drop k (sort_values_desc series))"
  shows "snd y \<le> snd x"
proof -
  have "sorted (map (\<lambda>(g, d). - d) (sort_values_desc series))"
    by (simp add: sort_values_desc_def)
  from sorted_take_drop [OF this assms] show ?thesis
    by (simp add: case_prod_beta)
qed

lemma series_where_cong:
  assumes "\<forall>n\<in>set ns. p n = q n"
  shows "series_where p names ns ds = series_where q names ns ds"
proof -
  have "filter (\<lambda>(g, n, d). p n) (zip names (zip ns ds)) =
        filter (\<lambda>(g, n, d). q n) (zip names (zip ns ds))"
  proof (rule filter_cong [OF refl])
    fix t assume t: "t \<in> set (zip names (zip ns ds))"
    obtain g n d where gnd: "t = (g, n, d)" by (cases t)
    have "n \<in> set ns"
      using t unfolding gnd by (meson set_zip_leftD set_zip_rightD)
    then show "(case t of (g, n, d) \<Rightarrow> p n) = (case t of (g, n, d) \<Rightarrow> q n)"
      using assms by (simp add: gnd)
  qed
  then show ?thesis by (simp add: series_where_def)
qed

lemma hvg_from_table_two_levels:
  assumes le3: "\<forall>n\<in>set ns. n \<le> 3"
    and five: "length (series_where (\<lambda>n. n = 3) names ns ds) = 5"
    and ten: "length (series_where (\<lambda>n. n = 2) names ns ds) = 10"
  shows "hvg_from_table names ns ds 3 3 12 =
           Some (map fst (sort_values_desc (series_where (\<lambda>n. n = 3) names ns ds))
                 @ map fst (take 7 (sort_values_desc (series_where (\<lambda>n. n = 2) names ns ds))))"
proof -
  have first: "series_where (\<lambda>n. n > int 3 - 1) names ns ds = series_where (\<lambda>n. n = 3) names ns ds"
    using le3 by (intro series_where_cong) auto
  have second: "series_where (\<lambda>n. n = int 3 - 1) names ns ds = series_where (\<lambda>n. n = 2) names ns ds"
    by simp
  show ?thesis
    unfolding hvg_from_table_def Let_def first
    by (subst hvg_fill_loop.simps) (simp add: five ten second py_take_def take_map Let_def)
qed

text \<open>
  C3: on a table over 3 batches in which exactly 5 genes are flagged in all 3
  batches and exactly 10 in exactly 2, \<open>hvg_batch\<close> with \<open>target_genes=12\<close> returns
  a list of length 12 made of the 5 all-batch genes and 7 of the two-batch genes,
  and these 7 are the ones of highest dispersion: the 10 two-batch genes split into
  the 7 taken and the 3 left, and none of those left has a higher dispersion than
  one taken.
\<close>

theorem hvg_batch_two_levels:
  assumes "r < length s"
    and "obs (s ! r) batch_key = Some (Categorical cats vals)"
    and "length cats = 3"
    and "names = var_names (s ! r)"
    and "ns = map (\<lambda>t. fst (snd t)) (hv (s ! r) flavor 12 n_bins (Some batch_key))"
    and "ds = map (\<lambda>t. snd (snd t)) (hv (s ! r) flavor 12 n_bins (Some batch_key))"
    and "length ns = length names"
    and "\<forall>n\<in>set ns. n \<le> 3"
    and "length (series_where (\<lambda>n. n = 3) names ns ds) = 5"
    and "length (series_where (\<lambda>n. n = 2) names ns ds) = 10"
  shows "\<exists>hvg s' top rest.
           hvg_batch hv s r (Some batch_key) 12 flavor n_bins False = Some (Inr (GeneList hvg, s'))
         \<and> length hvg = 12
         \<and> mset (top @ rest) = mset (series_where (\<lambda>n. n = 2) names ns ds)
         \<and> length top = 7
         \<and> (\<forall>x\<in>set top. \<forall>y\<in>set rest. snd y \<le> snd x)
         \<and> mset hvg = mset (map fst (series_where (\<lambda>n. n = 3) names ns ds)) + mset (map fst top)"
proof -
  let ?A = "series_where (\<lambda>n. n = 3) names ns ds"
  let ?B = "series_where (\<lambda>n. n = 2) names ns ds"
  let ?top = "take 7 (sort_values_desc ?B)"
  let ?rest = "drop 7 (sort_values_desc ?B)"
  let ?hvg = "map fst (sort_values_desc ?A) @ map fst ?top"
  let ?s' = "highly_variable_genes hv (s @ [s ! r]) (length s) flavor 12 n_bins (Some batch_key)"
  have sel: "hvg_from_table names ns ds 3 3 12 = Some ?hvg"
    using assms(8,9,10) by (rule hvg_from_table_two_levels)
  have ret: "hvg_batch hv s r (Some batch_key) 12 flavor n_bins False = Some (Inr (GeneList ?hvg, ?s'))"
    using sel by (simp add: hvg_batch_genes [OF assms(2)] Let_def assms(3,4,5,6) [symmetric])
  have len: "length ?hvg = 12"
    using assms(9,10) by simp
  have perm: "mset (?top @ ?rest) = mset ?B"
    by simp
  have ltop: "length ?top = 7"
    using assms(10) by simp
  have top: "\<forall>x\<in>set ?top. \<forall>y\<in>set ?rest. snd y \<le> snd x"
    using sort_values_desc_top by blast
  have ms: "mset ?hvg = mset (map fst ?A) + mset (map fst ?top)"
    by simp
  show ?thesis
    using ret len perm ltop top ms by blast
qed

theorem hvg_batch_two_levels_witness:
  "\<exists>hvg s'. hvg_batch example_hv [example_adata] 0 (Some ''batch'') 12 ''cell_ranger'' 20 False
               = Some (Inr (GeneList hvg, s'))
           \<and> length hvg = 12
           \<and> set [''a1'', ''a2'', ''a3'', ''a4'', ''a5''] \<subseteq> set hvg"
proof -
  let ?names = "var_names ([example_adata] ! 0)"
  let ?ns = "map (\<lambda>t. fst (snd t)) (example_hv ([example_adata] ! 0) ''cell_ranger'' 12 20 (Some ''batch''))"
  let ?ds = "map (\<lambda>t. snd (snd t)) (example_hv ([example_adata] ! 0) ''cell_ranger'' 12 20 (Some ''batch''))"
  have h1: "(0::nat) < length [example_adata]" by simp
  have h2: "obs ([example_adata] ! 0) ''batch'' = Some (Categorical [''x'', ''y'', ''z''] [''x'', ''y'', ''z''])"
    by (simp add: example_adata_def)
  have h3: "length [''x'', ''y'', ''z''] = 3" by simp
  have h7: "length ?ns = length ?names"
    by (simp add: example_hv_def example_stats_def example_adata_def)
  have h8: "\<forall>n\<in>set ?ns. n \<le> 3"
    by (simp add: example_hv_def example_stats_def)
  have h9: "length (series_where (\<lambda>n. n = 3) ?names ?ns ?ds) = 5"
    by (simp add: series_where_def example_hv_def example_stats_def example_adata_def)
  have h10: "length (series_where (\<lambda>n. n = 2) ?names ?ns ?ds) = 10"
    by (simp add: series_where_def example_hv_def example_stats_def example_adata_def)
  have all: "map fst (series_where (\<lambda>n. n = 3) ?names ?ns ?ds) = [''a1'', ''a2'', ''a3'', ''a4'', ''a5'']"
    by (simp add: series_where_def example_hv_def example_stats_def example_adata_def)
  from hvg_batch_two_levels
    [where hv = example_hv and s = "[example_adata]" and r = 0 and batch_key = "''batch''"
       and flavor = "''cell_ranger''" and n_bins = 20 and names = ?names and ns = ?ns and ds = ?ds,
     OF h1 h2 h3 refl refl refl h7 h8 h9 h10]
  obtain hvg s' and top :: "(string \<times> real) list" where
    ret: "hvg_batch example_hv [example_adata] 0 (Some ''batch'') 12 ''cell_ranger'' 20 False
               = Some (Inr (GeneList hvg, s'))"
    and len: "length hvg = 12"
    and ms: "mset hvg = mset (map fst (series_where (\<lambda>n. n = 3) ?names ?ns ?ds)) + mset (map fst top)"
    by blast
  have "set (map fst (series_where (\<lambda>n. n = 3) ?names ?ns ?ds)) \<subseteq> set hvg"
    using ms by (metis mset_subset_eq_add_left set_mset_mono set_mset_mset)
  then have "set [''a1'', ''a2'', ''a3'', ''a4'', ''a5''] \<subseteq> set hvg"
    unfolding all .
  with ret len show ?thesis by blast
qed

text \<open>The list that the example table gives for 12 genes.\<close>

lemma example_value:
  "\<exists>s'. hvg_batch example_hv [example_adata] 0 (Some ''batch'') 12 ''cell_ranger'' 20 False =
     Some (Inr (GeneList [''a2'', ''a3'', ''a5'', ''a1'', ''a4'',
                          ''b06'', ''b04'', ''b08'', ''b02'', ''b09'', ''b03'', ''b07''], s'))"
  apply (subst hvg_batch_genes [where cats = "[''x'', ''y'', ''z'']" and vals = "[''x'', ''y'', ''z'']"])
   apply (simp add: example_adata_def)
  apply (simp add: Let_def hvg_from_table_def example_hv_def example_stats_def example_adata_def
      series_where_def sort_values_desc_def)
  apply (subst hvg_fill_loop.simps)
  apply (simp add: Let_def series_where_def sort_values_desc_def py_take_def)
  done

subsection \<open>hvg_batch leaves its input alone\<close>

text \<open>
  C9: when \<open>hvg_batch\<close> is called with \<open>adataOut=False\<close> and returns, it returns a
  list of gene names, and every annotated matrix that existed before the call, the
  input among them, is as it was, with its matrix and all its per-cell and per-gene
  metadata: the statistics are written into a copy.
\<close>

theorem hvg_batch_frame:
  assumes "r < length s"
    and "hvg_batch hv s r batch_key target_genes flavor n_bins False = Some (Inr (res, s'))"
  shows "(\<exists>hvg. res = GeneList hvg) \<and> take (length s) s' = s \<and> s' ! r = s ! r"
proof -
  let ?s2 = "highly_variable_genes hv (s @ [s ! r]) (length s) flavor target_genes n_bins batch_key"
  from assms(2) have "(\<exists>hvg. res = GeneList hvg) \<and> s' = ?s2"
    by (auto simp: hvg_batch_def copy_def Let_def split: sum.splits option.splits)
  moreover have "take (length s) ?s2 = s"
    by (simp add: highly_variable_genes_def Let_def)
  moreover have "?s2 ! r = s ! r"
    using assms(1) by (simp add: highly_variable_genes_def Let_def nth_append)
  ultimately show ?thesis by simp
qed

theorem hvg_batch_frame_witness:
  "\<exists>res s'. hvg_batch example_hv [example_adata] 0 (Some ''batch'') 12 ''cell_ranger'' 20 False
               = Some (Inr (res, s'))
           \<and> take 1 s' = [example_adata] \<and> s' ! 0 = example_adata"
proof -
  obtain hvg s' where ret:
    "hvg_batch example_hv [example_adata] 0 (Some ''batch'') 12 ''cell_ranger'' 20 False
       = Some (Inr (GeneList hvg, s'))"
    using hvg_batch_returns
      [where hv = example_hv and s = "[example_adata]" and r = 0 and batch_key = "''batch''"
       and cats = "[''x'', ''y'', ''z'']" and vals = "[''x'', ''y'', ''z'']"
       and flavor = "''cell_ranger''" and n_bins = 20 and target_genes = 12]
    by (auto simp add: example_adata_def example_hv_def example_stats_def)
  have "(0::nat) < length [example_adata]" by simp
  from hvg_batch_frame [OF this ret] have "take 1 s' = [example_adata] \<and> s' ! 0 = example_adata"
    by simp
  with ret show ?thesis by blast
qed

subsection \<open>create_dictionary\<close>

lemma update_fresh:
  "k \<notin> fst ` set d \<Longrightarrow> AList.update k v d = d @ [(k, v)]"
  by (induction d) auto

lemma fold_update_fresh:
  "distinct (map snd ps) \<Longrightarrow> snd ` set ps \<inter> fst ` set d = {}
     \<Longrightarrow> fold (\<lambda>(idx, condition) dictionary. AList.update condition idx dictionary) ps d
         = d @ map (\<lambda>(idx, condition). (condition, idx)) ps"
proof (induction ps arbitrary: d)
  case Nil
  then show ?case by simp
next
  case (Cons p ps)
  obtain i c where p: "p = (i, c)" by (cases p)
  from Cons.prems have fresh: "c \<notin> fst ` set d" by (auto simp: p)
  have step: "AList.update c i d = d @ [(c, i)]"
    using fresh by (rule update_fresh)
  have "snd ` set ps \<inter> fst ` set (d @ [(c, i)]) = {}"
    using Cons.prems by (auto simp: p)
  moreover have "distinct (map snd ps)" using Cons.prems by simp
  ultimately show ?case
    using Cons.IH [of "d @ [(c, i)]"] by (simp add: p step)
qed

lemma swap_enumerate:
  "map (\<lambda>(idx, condition). (condition, idx)) (enumerate n xs) = zip xs [n..<n + length xs]"
  unfolding enumerate_eq_zip by (rule zip_commute [symmetric])

text \<open>
  C10: for pairwise-distinct conditions and a target that is a single value or a
  list, the dict that \<open>create_dictionary\<close> returns has as keys exactly the conditions
  that are not among the targets, in their order of appearance, and maps each to its
  position in that filtered sequence: the values are 0, 1, 2, ... in order.
\<close>

theorem create_dictionary_positions:
  assumes "distinct conditions"
  shows "create_dictionary conditions target_conditions =
           (let kept = filter (\<lambda>e. e \<notin> set (case target_conditions of
                                                Listed l \<Rightarrow> l | Single v \<Rightarrow> [v])) conditions
            in zip kept [0..<length kept])"
proof -
  let ?kept = "filter (\<lambda>e. e \<notin> set (case target_conditions of
                                       Listed l \<Rightarrow> l | Single v \<Rightarrow> [v])) conditions"
  have d: "distinct (map snd (enumerate 0 ?kept))"
    using assms by (simp add: enumerate_eq_zip)
  have "fold (\<lambda>(idx, condition) dictionary. AList.update condition idx dictionary)
          (enumerate 0 ?kept) []
          = [] @ map (\<lambda>(idx, condition). (condition, idx)) (enumerate 0 ?kept)"
    using d by (rule fold_update_fresh) simp
  then show ?thesis
    by (simp add: create_dictionary_def Let_def swap_enumerate)
qed

theorem create_dictionary_positions_witness:
  "distinct [''a'', ''b'', ''c'', ''d'']
     \<and> create_dictionary [''a'', ''b'', ''c'', ''d''] (Listed [''b''])
         = [(''a'', 0), (''c'', 1), (''d'', 2)]
     \<and> create_dictionary [''a'', ''b'', ''c'', ''d''] (Single ''a'')
         = [(''b'', 0), (''c'', 1), (''d'', 2)]"
  using create_dictionary_positions [of "[''a'', ''b'', ''c'', ''d'']" "Listed [''b'']"]
    create_dictionary_positions [of "[''a'', ''b'', ''c'', ''d'']" "Single ''a''"]
  by (simp add: upt_rec)

end
